theory Spec2Isabelle
  imports Main
begin

section \<open>Data model of \<^verbatim>\<open>trunk/models.py\<close>\<close>

text \<open>
  Python integers are unbounded, so every id and every vote value is an \<open>int\<close>.
  A cell fetched from a database cursor is either SQL \<open>NULL\<close> (Python \<open>None\<close>)
  or an integer.
\<close>

datatype pyval = PyNone | PyInt int

text \<open>
  The exceptions the module can raise or let through. \<open>DoesNotExist\<close> is
  \<^verbatim>\<open>Vote.DoesNotExist\<close>; \<open>AssertionError\<close> is what the manager's \<^verbatim>\<open>get\<close> raises when
  more than one row matches; \<open>IntegrityError\<close> is the database refusing a row that
  breaks \<^verbatim>\<open>unique_together\<close>; \<open>ProgrammingError\<close> is the database refusing a
  statement it cannot parse or bind.
\<close>

datatype error =
    ValueError string
  | IndexError
  | DoesNotExist
  | AssertionError
  | IntegrityError
  | ProgrammingError

text \<open>
  \<^verbatim>\<open>class Vote(models.Model)\<close>: one row of table \<^verbatim>\<open>votes\<close>. \<open>pk\<close> is the implicit
  \<^verbatim>\<open>id\<close> column; \<open>user_id\<close> and \<open>content_type_id\<close> are the two foreign keys.
  \<open>object_id\<close> is a \<^verbatim>\<open>PositiveIntegerField\<close>: the table refuses a row whose
  \<open>object_id\<close> is negative.
\<close>

record Vote =
  pk :: int
  user_id :: int
  content_type_id :: int
  object_id :: int
  vote :: int

text \<open>
  A voted-upon object: the code reads only its \<^verbatim>\<open>id\<close> and, through
  \<^verbatim>\<open>ContentType.objects.get_for_model\<close>, the id of its model's content type.
\<close>

record obj_ref =
  obj_ctype :: int
  obj_pk :: int

text \<open>A user: the code reads only \<^verbatim>\<open>user.id\<close> and \<^verbatim>\<open>user.is_authenticated()\<close>.\<close>

record user =
  user_pk :: int
  is_authenticated :: bool

text \<open>
  The database: the rows of table \<^verbatim>\<open>votes\<close> in storage order, and the next value
  of the \<^verbatim>\<open>id\<close> sequence.
\<close>

record store =
  votes :: "Vote list"
  next_pk :: int

definition get_for_model :: "obj_ref \<Rightarrow> int" where
  "get_for_model obj = obj_ctype obj"

section \<open>The manager's row operations\<close>

definition same_key :: "Vote \<Rightarrow> int \<Rightarrow> int \<Rightarrow> int \<Rightarrow> bool" where
  "same_key r u ct oid \<longleftrightarrow> user_id r = u \<and> content_type_id r = ct \<and> object_id r = oid"

text \<open>\<^verbatim>\<open>self.filter(user=.., content_type=.., object_id=..)\<close>\<close>

definition lookup :: "store \<Rightarrow> int \<Rightarrow> int \<Rightarrow> int \<Rightarrow> Vote list" where
  "lookup s u ct oid = filter (\<lambda>r. same_key r u ct oid) (votes s)"

text \<open>
  \<^verbatim>\<open>self.get(...)\<close>: the one matching row; \<^verbatim>\<open>DoesNotExist\<close> when there is none, an
  assertion failure when there are several.
\<close>

definition mgr_get :: "store \<Rightarrow> int \<Rightarrow> int \<Rightarrow> int \<Rightarrow> error + Vote" where
  "mgr_get s u ct oid =
     (case lookup s u ct oid of
        [] \<Rightarrow> Inl DoesNotExist
      | [r] \<Rightarrow> Inr r
      | _ \<Rightarrow> Inl AssertionError)"

text \<open>
  \<^verbatim>\<open>self.create(...)\<close>: an INSERT with a fresh \<^verbatim>\<open>id\<close>. The table carries
  \<^verbatim>\<open>unique_together = (('user', 'content_type', 'object_id'),)\<close>, so the database
  refuses a second row with the same triple; it also refuses a negative \<open>object_id\<close>.
  The user and the content type are rows that exist, so the foreign keys hold.
\<close>

definition mgr_create :: "store \<Rightarrow> int \<Rightarrow> int \<Rightarrow> int \<Rightarrow> int \<Rightarrow> (error + unit) \<times> store" where
  "mgr_create s u ct oid v =
     (if oid < 0 then (Inl IntegrityError, s)
      else if lookup s u ct oid \<noteq> [] then (Inl IntegrityError, s)
      else (Inr (),
            s\<lparr>votes := votes s @
                 [\<lparr>pk = next_pk s, user_id = u, content_type_id = ct, object_id = oid, vote = v\<rparr>],
              next_pk := next_pk s + 1\<rparr>))"

text \<open>
  \<^verbatim>\<open>v.save()\<close> on a fetched row: an UPDATE of the row with that \<^verbatim>\<open>id\<close>, refused when
  another row already holds the same triple or the \<open>object_id\<close> written is negative.
\<close>

definition save :: "store \<Rightarrow> Vote \<Rightarrow> (error + unit) \<times> store" where
  "save s v =
     (if object_id v < 0 then (Inl IntegrityError, s)
      else if filter (\<lambda>r. pk r \<noteq> pk v)
                (lookup s (user_id v) (content_type_id v) (object_id v)) \<noteq> []
      then (Inl IntegrityError, s)
      else (Inr (), s\<lparr>votes := map (\<lambda>r. if pk r = pk v then v else r) (votes s)\<rparr>))"

text \<open>\<^verbatim>\<open>v.delete()\<close>: a DELETE of the row with that \<^verbatim>\<open>id\<close>.\<close>

definition delete :: "store \<Rightarrow> Vote \<Rightarrow> (error + unit) \<times> store" where
  "delete s v = (Inr (), s\<lparr>votes := filter (\<lambda>r. pk r \<noteq> pk v) (votes s)\<rparr>)"

section \<open>\<^verbatim>\<open>VoteManager.record_vote\<close>\<close>

text \<open>
  The result pairs the outcome (an exception or \<^verbatim>\<open>None\<close>) with the database after
  the call. The \<^verbatim>\<open>try\<close> block catches only \<^verbatim>\<open>Vote.DoesNotExist\<close>; any other exception
  leaves the function.
\<close>

definition record_vote :: "store \<Rightarrow> obj_ref \<Rightarrow> user \<Rightarrow> int \<Rightarrow> (error + unit) \<times> store" where
  "record_vote s obj usr v =
     (if v \<notin> set [1, 0, - 1] then (Inl (ValueError ''Invalid vote (must be +1/0/-1)''), s)
      else
        let ctype = get_for_model obj in
        case mgr_get s (user_pk usr) ctype (obj_pk obj) of
          Inr r \<Rightarrow> if v = 0 then delete s r else save s (r\<lparr>vote := v\<rparr>)
        | Inl DoesNotExist \<Rightarrow>
            if v \<noteq> 0 then mgr_create s (user_pk usr) ctype (obj_pk obj) v else (Inr (), s)
        | Inl e \<Rightarrow> (Inl e, s))"

section \<open>The database cursor\<close>

text \<open>
  Four methods build the text of a SELECT statement and hand it to
  \<^verbatim>\<open>cursor.execute\<close> with a list of parameters. The database is modelled for the
  fragment of SQL these statements are written in: the text is cut into tokens, the
  tokens are parsed into a statement, and the statement is run on the rows of
  \<^verbatim>\<open>votes\<close>. A text outside the fragment is refused, as a database refuses a
  statement it cannot parse.
\<close>

subsection \<open>Tokens\<close>

definition is_space :: "char \<Rightarrow> bool" where
  "is_space c \<longleftrightarrow> c = CHR '' '' \<or> c = CHR ''\<newline>'' \<or> c = CHR 0x09"

definition is_punct :: "char \<Rightarrow> bool" where
  "is_punct c \<longleftrightarrow> c \<in> set ''(),=<>*''"

definition flush :: "string \<Rightarrow> string list" where
  "flush w = (if w = [] then [] else [w])"

text \<open>
  White space separates tokens; each of \<^verbatim>\<open>( ) , = < > *\<close> is a token of its own; any
  other run of characters is one word. \<open>w\<close> is the word read so far.
\<close>

fun sql_lex :: "string \<Rightarrow> string \<Rightarrow> string list" where
  "sql_lex w [] = flush w"
| "sql_lex w (c # cs) =
     (if is_space c then flush w @ sql_lex [] cs
      else if is_punct c then flush w @ [c] # sql_lex [] cs
      else sql_lex (w @ [c]) cs)"

subsection \<open>Statements\<close>

datatype sql_item = ObjectId | SumVote | CountStar | CountVote

datatype obj_cond = AnyObject | ObjectEq | ObjectIn nat

datatype sql_cmp = Less | Greater

datatype sql_dir = Asc | Desc

text \<open>
  \<^verbatim>\<open>SELECT items FROM table WHERE content_type_id = %s [AND object_id ...]
  [GROUP BY object_id] [HAVING SUM(vote) < 0 | > 0] [ORDER BY SUM(vote) ASC | DESC]
  [LIMIT %s]\<close>. \<open>ObjectIn n\<close> is \<^verbatim>\<open>object_id IN (%s, ..., %s)\<close> with \<open>n\<close> placeholders.
\<close>

record select_stmt =
  items :: "sql_item list"
  from_table :: string
  obj_where :: obj_cond
  group_by :: bool
  having :: "sql_cmp option"
  order_by :: "sql_dir option"
  limited :: bool

fun expect :: "string list \<Rightarrow> string list \<Rightarrow> string list option" where
  "expect [] ts = Some ts"
| "expect (k # ks) [] = None"
| "expect (k # ks) (t # ts) = (if k = t then expect ks ts else None)"

definition parse_item :: "string list \<Rightarrow> sql_item option" where
  "parse_item ts =
     (if ts = [''object_id''] then Some ObjectId
      else if ts = [''SUM'', ''('', ''vote'', '')''] then Some SumVote
      else if ts = [''COUNT'', ''('', ''*'', '')''] then Some CountStar
      else if ts = [''COUNT'', ''('', ''vote'', '')''] then Some CountVote
      else None)"

fun split_on :: "'a \<Rightarrow> 'a list \<Rightarrow> 'a list list" where
  "split_on sep [] = [] # []"
| "split_on sep (x # xs) =
     (let r = split_on sep xs in if x = sep then [] # r else (x # hd r) # tl r)"

text \<open>A non-empty list of placeholders separated by commas; an empty list is refused.\<close>

fun parse_placeholders :: "string list \<Rightarrow> (nat \<times> string list) option" where
  "parse_placeholders [] = None"
| "parse_placeholders [t] = (if t = ''%s'' then Some (1, []) else None)"
| "parse_placeholders (t # c # ts) =
     (if t \<noteq> ''%s'' then None
      else if c = '','' then
        (case parse_placeholders ts of None \<Rightarrow> None | Some (n, r) \<Rightarrow> Some (Suc n, r))
      else Some (1, c # ts))"

definition parse_obj_cond :: "string list \<Rightarrow> (obj_cond \<times> string list) option" where
  "parse_obj_cond ts =
     (case expect [''AND'', ''object_id''] ts of
        None \<Rightarrow> Some (AnyObject, ts)
      | Some r \<Rightarrow>
         (case expect [''='', ''%s''] r of
            Some r' \<Rightarrow> Some (ObjectEq, r')
          | None \<Rightarrow>
             (case expect [''IN'', ''(''] r of
                None \<Rightarrow> None
              | Some r' \<Rightarrow>
                 (case parse_placeholders r' of
                    None \<Rightarrow> None
                  | Some (n, r'') \<Rightarrow>
                     (case expect ['')''] r'' of
                        None \<Rightarrow> None
                      | Some r''' \<Rightarrow> Some (ObjectIn n, r'''))))))"

definition parse_group :: "string list \<Rightarrow> bool \<times> string list" where
  "parse_group ts =
     (case expect [''GROUP'', ''BY'', ''object_id''] ts of
        Some r \<Rightarrow> (True, r) | None \<Rightarrow> (False, ts))"

definition parse_having :: "string list \<Rightarrow> sql_cmp option \<times> string list" where
  "parse_having ts =
     (case expect [''HAVING'', ''SUM'', ''('', ''vote'', '')'', ''>'', ''0''] ts of
        Some r \<Rightarrow> (Some Greater, r)
      | None \<Rightarrow>
         (case expect [''HAVING'', ''SUM'', ''('', ''vote'', '')'', ''<'', ''0''] ts of
            Some r \<Rightarrow> (Some Less, r)
          | None \<Rightarrow> (None, ts)))"

definition parse_order :: "string list \<Rightarrow> sql_dir option \<times> string list" where
  "parse_order ts =
     (case expect [''ORDER'', ''BY'', ''SUM'', ''('', ''vote'', '')'', ''DESC''] ts of
        Some r \<Rightarrow> (Some Desc, r)
      | None \<Rightarrow>
         (case expect [''ORDER'', ''BY'', ''SUM'', ''('', ''vote'', '')'', ''ASC''] ts of
            Some r \<Rightarrow> (Some Asc, r)
          | None \<Rightarrow> (None, ts)))"

definition parse_limit :: "string list \<Rightarrow> bool \<times> string list" where
  "parse_limit ts =
     (case expect [''LIMIT'', ''%s''] ts of Some r \<Rightarrow> (True, r) | None \<Rightarrow> (False, ts))"

text \<open>
  The clauses after the first condition, each optional, in SQL's order. Tokens left
  over after the last clause are a syntax error.
\<close>

definition parse_tail :: "sql_item list \<Rightarrow> string \<Rightarrow> string list \<Rightarrow> select_stmt option" where
  "parse_tail its tbl ts =
     (case parse_obj_cond ts of
        None \<Rightarrow> None
      | Some (oc, t1) \<Rightarrow>
          let (g, t2) = parse_group t1;
              (h, t3) = parse_having t2;
              (d, t4) = parse_order t3;
              (l, t5) = parse_limit t4
          in if t5 = []
             then Some \<lparr>items = its, from_table = tbl, obj_where = oc, group_by = g,
                         having = h, order_by = d, limited = l\<rparr>
             else None)"

definition sql_parse :: "string list \<Rightarrow> select_stmt option" where
  "sql_parse ts =
     (case expect [''SELECT''] ts of
        None \<Rightarrow> None
      | Some t1 \<Rightarrow>
          let its = map parse_item (split_on '','' (takeWhile (\<lambda>t. t \<noteq> ''FROM'') t1)) in
          if None \<in> set its then None
          else
            (case dropWhile (\<lambda>t. t \<noteq> ''FROM'') t1 of
               f # tbl # t2 \<Rightarrow>
                 (case expect [''WHERE'', ''content_type_id'', ''='', ''%s''] t2 of
                    None \<Rightarrow> None
                  | Some t3 \<Rightarrow> parse_tail (map the its) tbl t3)
             | _ \<Rightarrow> None))"

subsection \<open>Running a statement\<close>

definition sum_votes :: "Vote list \<Rightarrow> int" where
  "sum_votes rows = sum_list (map vote rows)"

text \<open>\<^verbatim>\<open>SUM\<close> over no rows is \<^verbatim>\<open>NULL\<close>.\<close>

definition sql_sum :: "Vote list \<Rightarrow> pyval" where
  "sql_sum rows = (if rows = [] then PyNone else PyInt (sum_votes rows))"

text \<open>
  With \<^verbatim>\<open>GROUP BY object_id\<close> there is one group for each object id among the
  matching rows; without it the matching rows form one group, also when there are none.
\<close>

definition select_groups :: "bool \<Rightarrow> Vote list \<Rightarrow> (int option \<times> Vote list) list" where
  "select_groups grouped rows =
     (if grouped
      then map (\<lambda>k. (Some k, filter (\<lambda>r. object_id r = k) rows)) (remdups (map object_id rows))
      else [(None, rows)])"

definition having_holds :: "sql_cmp option \<Rightarrow> Vote list \<Rightarrow> bool" where
  "having_holds h rows =
     (case h of
        None \<Rightarrow> True
      | Some Greater \<Rightarrow> rows \<noteq> [] \<and> sum_votes rows > 0
      | Some Less \<Rightarrow> rows \<noteq> [] \<and> sum_votes rows < 0)"

definition order_groups ::
  "sql_dir option \<Rightarrow> (int option \<times> Vote list) list \<Rightarrow> (int option \<times> Vote list) list" where
  "order_groups d gs =
     (case d of
        None \<Rightarrow> gs
      | Some Asc \<Rightarrow> sort_key (\<lambda>g. sum_votes (snd g)) gs
      | Some Desc \<Rightarrow> sort_key (\<lambda>g. - sum_votes (snd g)) gs)"

text \<open>Column \<^verbatim>\<open>vote\<close> is never \<^verbatim>\<open>NULL\<close>, so \<^verbatim>\<open>COUNT(vote)\<close> counts every row.\<close>

definition project_item :: "int option \<times> Vote list \<Rightarrow> sql_item \<Rightarrow> pyval" where
  "project_item g it =
     (case it of
        ObjectId \<Rightarrow> (case fst g of Some k \<Rightarrow> PyInt k | None \<Rightarrow> PyNone)
      | SumVote \<Rightarrow> sql_sum (snd g)
      | CountStar \<Rightarrow> PyInt (int (length (snd g)))
      | CountVote \<Rightarrow> PyInt (int (length (snd g))))"

definition n_obj_params :: "obj_cond \<Rightarrow> nat" where
  "n_obj_params oc = (case oc of AnyObject \<Rightarrow> 0 | ObjectEq \<Rightarrow> 1 | ObjectIn n \<Rightarrow> n)"

text \<open>
  The parameters fill the placeholders from left to right: the content type, the
  object ids, the limit. A wrong number of parameters, a bare \<^verbatim>\<open>object_id\<close> column
  without \<^verbatim>\<open>GROUP BY\<close> and a negative or non-integer limit are refused.
\<close>

definition exec_select :: "Vote list \<Rightarrow> select_stmt \<Rightarrow> pyval list \<Rightarrow> error + pyval list list" where
  "exec_select rows stmt params =
     (if length params \<noteq> 1 + n_obj_params (obj_where stmt) + (if limited stmt then 1 else 0)
      then Inl ProgrammingError
      else if ObjectId \<in> set (items stmt) \<and> \<not> group_by stmt then Inl ProgrammingError
      else
        (case params of
           [] \<Rightarrow> Inl ProgrammingError
         | ct # ps \<Rightarrow>
            let obj_ps = take (n_obj_params (obj_where stmt)) ps;
                lim_ps = drop (n_obj_params (obj_where stmt)) ps;
                matched = filter (\<lambda>r. PyInt (content_type_id r) = ct \<and>
                             (obj_where stmt = AnyObject \<or> PyInt (object_id r) \<in> set obj_ps)) rows;
                gs = order_groups (order_by stmt)
                       (filter (\<lambda>g. having_holds (having stmt) (snd g))
                          (select_groups (group_by stmt) matched));
                out = map (\<lambda>g. map (project_item g) (items stmt)) gs
            in if limited stmt
               then (case lim_ps of
                       [PyInt l] \<Rightarrow> if l < 0 then Inl ProgrammingError else Inr (take (nat l) out)
                     | _ \<Rightarrow> Inl ProgrammingError)
               else Inr out))"

text \<open>\<^verbatim>\<open>db_table = 'votes'\<close> in \<^verbatim>\<open>Vote.Meta\<close>; \<^verbatim>\<open>backend.quote_name\<close> puts it in double quotes.\<close>

definition db_table :: string where
  "db_table = ''votes''"

definition quote_name :: "string \<Rightarrow> string" where
  "quote_name name = CHR 0x22 # name @ [CHR 0x22]"

text \<open>\<^verbatim>\<open>cursor.execute(query, params)\<close> followed by \<^verbatim>\<open>cursor.fetchall()\<close>.\<close>

definition execute_fetchall :: "store \<Rightarrow> string \<Rightarrow> pyval list \<Rightarrow> error + pyval list list" where
  "execute_fetchall s query params =
     (case sql_parse (sql_lex [] query) of
        None \<Rightarrow> Inl ProgrammingError
      | Some stmt \<Rightarrow>
          if from_table stmt = quote_name db_table then exec_select (votes s) stmt params
          else Inl ProgrammingError)"

section \<open>The query texts\<close>

text \<open>
  Each text is what the Python expression evaluates to: \<^verbatim>\<open>%\<close> has put the quoted table
  name (and, in the bulk query, the joined placeholders) in place of \<^verbatim>\<open>%s\<close> and left
  \<^verbatim>\<open>%s\<close> where the template has \<^verbatim>\<open>%%s\<close>. A triple-quoted string starts with the
  newline after the opening quotes and ends with its last character: there is no newline
  before the closing quotes.
\<close>

definition get_score_query :: string where
  "get_score_query =
     ''\<newline>SELECT SUM(vote), COUNT(*)\<newline>FROM '' @ quote_name db_table @
     ''\<newline>WHERE content_type_id = %s\<newline>  AND object_id = %s''"

text \<open>\<^verbatim>\<open>sep.join(xs)\<close>\<close>

fun join :: "'a list \<Rightarrow> 'a list list \<Rightarrow> 'a list" where
  "join sep [] = []"
| "join sep [x] = x"
| "join sep (x # y # ys) = x @ sep @ join sep (y # ys)"

text \<open>\<open>n\<close> is \<^verbatim>\<open>len(objects)\<close>.\<close>

definition get_scores_in_bulk_query :: "nat \<Rightarrow> string" where
  "get_scores_in_bulk_query n =
     ''\<newline>SELECT object_id, SUM(vote), COUNT(vote)\<newline>FROM '' @ quote_name db_table @
     ''\<newline>WHERE content_type_id = %s\<newline>  AND object_id IN ('' @
     join '','' (replicate n ''%s'') @ '')\<newline>GROUP BY object_id''"

text \<open>
  \<^verbatim>\<open>get_top\<close> appends the \<^verbatim>\<open>HAVING\<close> clause with \<^verbatim>\<open>+=\<close> to a text that ends in
  \<^verbatim>\<open>GROUP BY object_id\<close>; the appended literal starts with the letter \<^verbatim>\<open>H\<close>.
\<close>

definition get_top_query :: "bool \<Rightarrow> string" where
  "get_top_query reversed =
     (''\<newline>SELECT object_id, SUM(vote)\<newline>FROM '' @ quote_name db_table @
      ''\<newline>WHERE content_type_id = %s\<newline>GROUP BY object_id'') @
     (if reversed then ''HAVING SUM(vote) < 0 ORDER BY SUM(vote) ASC LIMIT %s''
      else ''HAVING SUM(vote) > 0 ORDER BY SUM(vote) DESC LIMIT %s'')"

section \<open>The read methods of \<^verbatim>\<open>VoteManager\<close>\<close>

text \<open>\<^verbatim>\<open>a or b\<close> on a fetched cell: \<^verbatim>\<open>None\<close> and \<^verbatim>\<open>0\<close> are false.\<close>

definition py_or :: "pyval \<Rightarrow> pyval \<Rightarrow> pyval" where
  "py_or a b = (if a = PyNone \<or> a = PyInt 0 then b else a)"

text \<open>\<^verbatim>\<open>dict(pairs)\<close>: a later pair replaces an earlier one with the same key.\<close>

definition py_dict :: "('k \<times> 'v) list \<Rightarrow> ('k \<rightharpoonup> 'v)" where
  "py_dict kvs = map_of (rev kvs)"

text \<open>The dictionary \<^verbatim>\<open>{'score': .., 'num_votes': ..}\<close>.\<close>

record score_dict =
  score :: pyval
  num_votes :: pyval

text \<open>\<^verbatim>\<open>fetchall()[0]\<close>, \<^verbatim>\<open>result[0]\<close> and \<^verbatim>\<open>result[1]\<close> raise \<^verbatim>\<open>IndexError\<close> out of range.\<close>

definition get_score :: "store \<Rightarrow> obj_ref \<Rightarrow> error + score_dict" where
  "get_score s obj =
     (let query = get_score_query;
          ctype = get_for_model obj
      in case execute_fetchall s query [PyInt ctype, PyInt (obj_pk obj)] of
           Inl e \<Rightarrow> Inl e
         | Inr results \<Rightarrow>
            (case results of
               [] \<Rightarrow> Inl IndexError
             | result # _ \<Rightarrow>
                (case result of
                   r0 # r1 # _ \<Rightarrow> Inr \<lparr>score = py_or r0 (PyInt 0), num_votes = r1\<rparr>
                 | _ \<Rightarrow> Inl IndexError)))"

text \<open>Tuple unpacking in a \<^verbatim>\<open>for\<close> clause: a row of another length is a \<^verbatim>\<open>ValueError\<close>.\<close>

fun unpack3 :: "pyval list \<Rightarrow> (pyval \<times> pyval \<times> pyval) option" where
  "unpack3 [a, b, c] = Some (a, b, c)"
| "unpack3 _ = None"

fun unpack2 :: "pyval list \<Rightarrow> (pyval \<times> pyval) option" where
  "unpack2 [a, b] = Some (a, b)"
| "unpack2 _ = None"

text \<open>
  The query text is built first, from \<^verbatim>\<open>len(objects)\<close>; then \<^verbatim>\<open>objects[0]\<close> is read,
  which raises \<^verbatim>\<open>IndexError\<close> on an empty list. The parameters are the content type of
  the first object and the ids of all objects.
\<close>

definition get_scores_in_bulk :: "store \<Rightarrow> obj_ref list \<Rightarrow> error + (pyval \<rightharpoonup> score_dict)" where
  "get_scores_in_bulk s objects =
     (let query = get_scores_in_bulk_query (length objects)
      in case objects of
           [] \<Rightarrow> Inl IndexError
         | obj0 # _ \<Rightarrow>
            let ctype = get_for_model obj0
            in case execute_fetchall s query (PyInt ctype # map (\<lambda>obj. PyInt (obj_pk obj)) objects) of
                 Inl e \<Rightarrow> Inl e
               | Inr results \<Rightarrow>
                  (case those (map unpack3 results) of
                     None \<Rightarrow> Inl (ValueError ''unpack'')
                   | Some rows \<Rightarrow>
                       Inr (py_dict (map (\<lambda>(oid, sc, n).
                              (oid, \<lparr>score = sc, num_votes = n\<rparr>)) rows))))"

text \<open>
  A model class as \<^verbatim>\<open>get_top\<close> uses it: the id of its content type, and its table of
  objects by primary key.
\<close>

record 'a model =
  model_ctype :: int
  model_objects :: "int \<rightharpoonup> 'a"

definition get_object :: "'a model \<Rightarrow> pyval \<Rightarrow> 'a option" where
  "get_object M k = (case k of PyInt i \<Rightarrow> model_objects M i | PyNone \<Rightarrow> None)"

text \<open>\<^verbatim>\<open>Model.objects.in_bulk(id_list)\<close>: the objects that exist among the ids asked for.\<close>

definition in_bulk :: "'a model \<Rightarrow> pyval list \<Rightarrow> (pyval \<rightharpoonup> 'a)" where
  "in_bulk M id_list = (\<lambda>k. if k \<in> set id_list then get_object M k else None)"

text \<open>The \<^verbatim>\<open>for\<close> loop of \<^verbatim>\<open>get_top\<close>, with its \<^verbatim>\<open>if id in objects\<close>.\<close>

fun yield_pairs :: "(pyval \<rightharpoonup> 'a) \<Rightarrow> (pyval \<times> pyval) list \<Rightarrow> ('a \<times> pyval) list" where
  "yield_pairs objects [] = []"
| "yield_pairs objects ((oid, sc) # rest) =
     (case objects oid of
        Some ob \<Rightarrow> (ob, sc) # yield_pairs objects rest
      | None \<Rightarrow> yield_pairs objects rest)"

text \<open>What \<^verbatim>\<open>get_top\<close> does with the fetched rows: the call of \<^verbatim>\<open>in_bulk\<close> and the loop.\<close>

definition resolve_results :: "'a model \<Rightarrow> pyval list list \<Rightarrow> error + ('a \<times> pyval) list" where
  "resolve_results M results =
     (case those (map unpack2 results) of
        None \<Rightarrow> Inl (ValueError ''unpack'')
      | Some pairs \<Rightarrow>
          let objects = in_bulk M (map fst pairs)
          in Inr (yield_pairs objects pairs))"

text \<open>
  \<^verbatim>\<open>get_top\<close> is a generator; the value here is what iterating it to the end gives, the
  list of the pairs it yields or the exception it raises.
\<close>

definition get_top :: "store \<Rightarrow> 'a model \<Rightarrow> int \<Rightarrow> bool \<Rightarrow> error + ('a \<times> pyval) list" where
  "get_top s M limit reversed =
     (let ctype = model_ctype M;
          query = get_top_query reversed
      in case execute_fetchall s query [PyInt ctype, PyInt limit] of
           Inl e \<Rightarrow> Inl e
         | Inr results \<Rightarrow> resolve_results M results)"

definition get_bottom :: "store \<Rightarrow> 'a model \<Rightarrow> int \<Rightarrow> error + ('a \<times> pyval) list" where
  "get_bottom s M limit = get_top s M limit True"

definition get_for_user :: "store \<Rightarrow> obj_ref \<Rightarrow> user \<Rightarrow> error + Vote option" where
  "get_for_user s obj usr =
     (if \<not> is_authenticated usr then Inr None
      else
        let ctype = get_for_model obj in
        case mgr_get s (user_pk usr) ctype (obj_pk obj) of
          Inr v \<Rightarrow> Inr (Some v)
        | Inl DoesNotExist \<Rightarrow> Inr None
        | Inl e \<Rightarrow> Inl e)"

text \<open>\<^verbatim>\<open>if len(objects) > 0\<close> is the case distinction; \<^verbatim>\<open>objects[0]\<close> is read inside it.\<close>

definition get_for_user_in_bulk :: "store \<Rightarrow> obj_ref list \<Rightarrow> user \<Rightarrow> (int \<rightharpoonup> Vote)" where
  "get_for_user_in_bulk s objects usr =
     (case objects of
        [] \<Rightarrow> Map.empty
      | obj0 # _ \<Rightarrow>
          let ctype = get_for_model obj0;
              found = filter (\<lambda>r. content_type_id r = ctype \<and>
                                 object_id r \<in> set (map obj_pk objects) \<and>
                                 user_id r = user_pk usr) (votes s)
          in py_dict (map (\<lambda>v. (object_id v, v)) found))"

section \<open>Sequences of calls, and the vocabulary of the properties\<close>

text \<open>
  Calls of \<open>record_vote\<close> by one user on one object, one after the other; an exception
  ends the sequence.
\<close>

fun record_votes :: "store \<Rightarrow> obj_ref \<Rightarrow> user \<Rightarrow> int list \<Rightarrow> (error + unit) \<times> store" where
  "record_votes s obj usr [] = (Inr (), s)"
| "record_votes s obj usr (v # vs) =
     (case record_vote s obj usr v of
        (Inl e, s') \<Rightarrow> (Inl e, s')
      | (Inr _, s') \<Rightarrow> record_votes s' obj usr vs)"

definition vote_key :: "Vote \<Rightarrow> int \<times> int \<times> int" where
  "vote_key r = (user_id r, content_type_id r, object_id r)"

text \<open>\<^verbatim>\<open>unique_together = (('user', 'content_type', 'object_id'),)\<close>\<close>

definition unique_together :: "store \<Rightarrow> bool" where
  "unique_together s \<longleftrightarrow> distinct (map vote_key (votes s))"

text \<open>
  The states the database can be in: the uniqueness constraint holds, primary keys are
  distinct, and the sequence is ahead of every key it has given out.
\<close>

definition wf_store :: "store \<Rightarrow> bool" where
  "wf_store s \<longleftrightarrow>
     unique_together s \<and> distinct (map pk (votes s)) \<and> list_all (\<lambda>r. pk r < next_pk s) (votes s)"

text \<open>The records of one user on one object.\<close>

abbreviation existing :: "store \<Rightarrow> obj_ref \<Rightarrow> user \<Rightarrow> Vote list" where
  "existing s obj usr \<equiv> lookup s (user_pk usr) (get_for_model obj) (obj_pk obj)"

text \<open>
  What the uniqueness property says of the state after the calls \<open>vs\<close>: at most one
  record, none if the last value was 0, else one with the last non-zero value.
\<close>

definition settled :: "store \<Rightarrow> obj_ref \<Rightarrow> user \<Rightarrow> int list \<Rightarrow> bool" where
  "settled s' obj usr vs \<longleftrightarrow>
     wf_store s' \<and>
     length (existing s' obj usr) \<le> 1 \<and>
     (vs \<noteq> [] \<longrightarrow>
        map vote (existing s' obj usr)
          = (if last vs = 0 then [] else [last (filter (\<lambda>v. v \<noteq> 0) vs)]))"

text \<open>The stored votes on one object.\<close>

definition votes_for :: "store \<Rightarrow> int \<Rightarrow> int \<Rightarrow> Vote list" where
  "votes_for s ct oid = filter (\<lambda>r. content_type_id r = ct \<and> object_id r = oid) (votes s)"

text \<open>The rows the bulk score query matches, and the rows the bulk user lookup finds.\<close>

definition bulk_matched :: "store \<Rightarrow> obj_ref list \<Rightarrow> Vote list" where
  "bulk_matched s objects =
     filter (\<lambda>r. content_type_id r = get_for_model (hd objects) \<and>
                 object_id r \<in> obj_pk ` set objects) (votes s)"

definition bulk_found :: "store \<Rightarrow> obj_ref list \<Rightarrow> user \<Rightarrow> Vote list" where
  "bulk_found s objects usr =
     filter (\<lambda>r. content_type_id r = get_for_model (hd objects) \<and>
                 object_id r \<in> set (map obj_pk objects) \<and>
                 user_id r = user_pk usr) (votes s)"

text \<open>The bulk query text up to its opening parenthesis.\<close>

definition bulk_prefix :: string where
  "bulk_prefix = ''\<newline>SELECT object_id, SUM(vote), COUNT(vote)\<newline>FROM '' @ quote_name db_table @
     ''\<newline>WHERE content_type_id = %s\<newline>  AND object_id IN ''"

subsection \<open>An example database\<close>

text \<open>
  Objects 10, 20, 30 and 40 of content type 1 with the sums 5, -3, 2 and 0; object 20 no
  longer exists in the model's table.
\<close>

definition vote_row :: "int \<Rightarrow> int \<Rightarrow> int \<Rightarrow> int \<Rightarrow> Vote" where
  "vote_row p u oid v = \<lparr>pk = p, user_id = u, content_type_id = 1, object_id = oid, vote = v\<rparr>"

definition ex_store :: store where
  "ex_store =
     \<lparr>votes = [vote_row 1 1 10 1, vote_row 2 2 10 1, vote_row 3 3 10 1, vote_row 4 4 10 1,
               vote_row 5 5 10 1, vote_row 6 1 20 (- 1), vote_row 7 2 20 (- 1),
               vote_row 8 3 20 (- 1), vote_row 9 1 30 1, vote_row 10 2 30 1,
               vote_row 11 1 40 1, vote_row 12 2 40 (- 1)],
      next_pk = 13\<rparr>"

definition ex_model :: "string model" where
  "ex_model = \<lparr>model_ctype = 1, model_objects = [10 \<mapsto> ''A'', 30 \<mapsto> ''C'', 40 \<mapsto> ''D'']\<rparr>"

definition ex_obj :: "int \<Rightarrow> obj_ref" where
  "ex_obj oid = \<lparr>obj_ctype = 1, obj_pk = oid\<rparr>"

definition anon :: user where
  "anon = \<lparr>user_pk = 3, is_authenticated = False\<rparr>"

definition empty_store :: store where
  "empty_store = \<lparr>votes = [], next_pk = 1\<rparr>"

definition ex_user :: user where
  "ex_user = \<lparr>user_pk = 1, is_authenticated = True\<rparr>"

section \<open>Recording a vote\<close>

subsection \<open>The uniqueness constraint and the row operations\<close>

lemma same_key_iff: "same_key r u ct oid \<longleftrightarrow> vote_key r = (u, ct, oid)"
  by (auto simp: same_key_def vote_key_def)

lemma distinct_map_filter_le1:
  "distinct (map f xs) \<Longrightarrow> length (filter (\<lambda>x. f x = k) xs) \<le> 1"
  by (induction xs) (auto simp: filter_empty_conv image_iff)

lemma lookup_le1: "unique_together s \<Longrightarrow> length (lookup s u ct oid) \<le> 1"
  unfolding lookup_def unique_together_def same_key_iff
  by (rule distinct_map_filter_le1)

lemma lookup_cases:
  assumes "unique_together s"
  obtains "lookup s u ct oid = []" | r where "lookup s u ct oid = [r]"
  using lookup_le1 [OF assms, of u ct oid]
  by (cases "lookup s u ct oid" rule: list.exhaust; cases "tl (lookup s u ct oid)") auto

lemma lookup_single_mem:
  "lookup s u ct oid = [r] \<Longrightarrow> r \<in> set (votes s) \<and> vote_key r = (u, ct, oid)"
proof -
  assume "lookup s u ct oid = [r]"
  then have "r \<in> set (filter (\<lambda>r. same_key r u ct oid) (votes s))"
    by (simp add: lookup_def)
  then show ?thesis by (simp add: same_key_iff)
qed

lemma distinct_map_eq: "distinct (map f xs) \<Longrightarrow> x \<in> set xs \<Longrightarrow> y \<in> set xs \<Longrightarrow> f x = f y \<Longrightarrow> x = y"
  by (meson distinct_map inj_onD)

lemma wf_delete:
  assumes "wf_store s"
  shows "wf_store (s\<lparr>votes := filter P (votes s)\<rparr>)"
  using assms
  by (auto simp: wf_store_def unique_together_def distinct_map_filter list_all_iff)

lemma lookup_delete:
  "lookup (s\<lparr>votes := filter P (votes s)\<rparr>) u ct oid = filter P (lookup s u ct oid)"
  by (auto simp: lookup_def intro: filter_cong)

lemma pk_eq_row:
  "wf_store s \<Longrightarrow> x \<in> set (votes s) \<Longrightarrow> r \<in> set (votes s) \<Longrightarrow> pk x = pk r \<Longrightarrow> x = r"
  unfolding wf_store_def by (meson distinct_map_eq)

lemma update_keys:
  assumes "wf_store s" and "r \<in> set (votes s)"
  shows "map vote_key (map (\<lambda>x. if pk x = pk r then r\<lparr>vote := v\<rparr> else x) (votes s))
         = map vote_key (votes s)"
    and "map pk (map (\<lambda>x. if pk x = pk r then r\<lparr>vote := v\<rparr> else x) (votes s)) = map pk (votes s)"
  using pk_eq_row [OF assms(1) _ assms(2)] by (auto simp: vote_key_def)

lemma wf_update:
  assumes "wf_store s" and "r \<in> set (votes s)"
  shows "wf_store (s\<lparr>votes := map (\<lambda>x. if pk x = pk r then r\<lparr>vote := v\<rparr> else x) (votes s)\<rparr>)"
proof -
  let ?g = "\<lambda>x. if pk x = pk r then r\<lparr>vote := v\<rparr> else x"
  have "list_all (\<lambda>x. pk x < next_pk s) (map ?g (votes s))"
    using assms by (auto simp: wf_store_def list_all_iff)
  moreover have "distinct (map vote_key (map ?g (votes s)))"
    using assms(1) unfolding update_keys(1) [OF assms] by (simp add: wf_store_def unique_together_def)
  moreover have "distinct (map pk (map ?g (votes s)))"
    using assms(1) unfolding update_keys(2) [OF assms] by (simp add: wf_store_def)
  ultimately show ?thesis
    by (simp add: wf_store_def unique_together_def)
qed

lemma update_as_row_eq:
  assumes "wf_store s" and "r \<in> set (votes s)"
  shows "map (\<lambda>x. if pk x = pk r then r' else x) (votes s)
         = map (\<lambda>x. if x = r then r' else x) (votes s)"
  using pk_eq_row [OF assms(1) _ assms(2)] by auto

lemma delete_as_row_eq:
  assumes "wf_store s" and "r \<in> set (votes s)"
  shows "filter (\<lambda>x. pk x \<noteq> pk r) (votes s) = removeAll r (votes s)"
  using pk_eq_row [OF assms(1) _ assms(2)] by (auto simp: removeAll_filter_not_eq intro: filter_cong)

lemma lookup_update:
  assumes "wf_store s" and "lookup s u ct oid = [r]"
  shows "lookup (s\<lparr>votes := map (\<lambda>x. if pk x = pk r then r\<lparr>vote := v\<rparr> else x) (votes s)\<rparr>) u ct oid
         = [r\<lparr>vote := v\<rparr>]"
proof -
  let ?g = "\<lambda>x. if pk x = pk r then r\<lparr>vote := v\<rparr> else x"
  have mem: "r \<in> set (votes s)" and k: "same_key r u ct oid"
    using lookup_single_mem [OF assms(2)] by (simp_all add: same_key_iff)
  have "filter (\<lambda>x. same_key (?g x) u ct oid) (votes s) = filter (\<lambda>x. same_key x u ct oid) (votes s)"
  proof (rule filter_cong [OF refl])
    fix x assume "x \<in> set (votes s)"
    then show "same_key (?g x) u ct oid = same_key x u ct oid"
      using pk_eq_row [OF assms(1) _ mem, of x] k by (auto simp: same_key_def)
  qed
  then have "lookup (s\<lparr>votes := map ?g (votes s)\<rparr>) u ct oid = map ?g (lookup s u ct oid)"
    by (simp add: lookup_def filter_map o_def)
  then show ?thesis by (simp add: assms(2))
qed

lemma wf_create:
  assumes "wf_store s" and "lookup s u ct oid = []"
  shows "wf_store (s\<lparr>votes := votes s @
            [\<lparr>pk = next_pk s, user_id = u, content_type_id = ct, object_id = oid, vote = v\<rparr>],
           next_pk := next_pk s + 1\<rparr>)"
proof -
  have "\<forall>x \<in> set (votes s). vote_key x \<noteq> (u, ct, oid)"
    using assms(2) by (simp add: lookup_def filter_empty_conv same_key_iff)
  moreover have "\<forall>x \<in> set (votes s). pk x < next_pk s"
    using assms(1) by (simp add: wf_store_def list_all_iff)
  ultimately show ?thesis
    using assms(1)
    by (auto simp: wf_store_def unique_together_def list_all_iff vote_key_def)
qed

lemma lookup_create:
  assumes "lookup s u ct oid = []"
  shows "lookup (s\<lparr>votes := votes s @
            [\<lparr>pk = next_pk s, user_id = u, content_type_id = ct, object_id = oid, vote = v\<rparr>],
           next_pk := next_pk s + 1\<rparr>) u ct oid
         = [\<lparr>pk = next_pk s, user_id = u, content_type_id = ct, object_id = oid, vote = v\<rparr>]"
  using assms by (simp add: lookup_def same_key_def)

subsection \<open>One call\<close>

lemma record_vote_absent:
  assumes "lookup s (user_pk usr) (get_for_model obj) (obj_pk obj) = []"
    and "v \<in> {1, 0, - 1}"
  shows "record_vote s obj usr v =
     (if v = 0 then (Inr (), s)
      else if obj_pk obj < 0 then (Inl IntegrityError, s)
      else (Inr (), s\<lparr>votes := votes s @
              [\<lparr>pk = next_pk s, user_id = user_pk usr, content_type_id = get_for_model obj,
                object_id = obj_pk obj, vote = v\<rparr>],
            next_pk := next_pk s + 1\<rparr>))"
  using assms by (auto simp: record_vote_def mgr_get_def mgr_create_def)

lemma record_vote_present:
  assumes "lookup s (user_pk usr) (get_for_model obj) (obj_pk obj) = [r]"
    and "v \<in> {1, 0, - 1}"
  shows "record_vote s obj usr v =
     (if v = 0 then (Inr (), s\<lparr>votes := filter (\<lambda>x. pk x \<noteq> pk r) (votes s)\<rparr>)
      else if obj_pk obj < 0 then (Inl IntegrityError, s)
      else (Inr (), s\<lparr>votes := map (\<lambda>x. if pk x = pk r then r\<lparr>vote := v\<rparr> else x) (votes s)\<rparr>))"
proof -
  have k: "same_key r (user_pk usr) (get_for_model obj) (obj_pk obj)"
    using lookup_single_mem [OF assms(1)] by (simp add: same_key_iff)
  then have "lookup s (user_id r) (content_type_id r) (object_id r) = [r]"
    using assms(1) by (simp add: same_key_def)
  moreover have "object_id r = obj_pk obj"
    using k by (simp add: same_key_def)
  ultimately show ?thesis
    using assms by (auto simp: record_vote_def mgr_get_def save_def delete_def)
qed

lemma record_vote_step:
  assumes "wf_store s" and "v \<in> {1, 0, - 1}" and nn: "0 \<le> obj_pk obj"
  shows "\<exists>s'. record_vote s obj usr v = (Inr (), s') \<and> wf_store s' \<and>
          map vote (lookup s' (user_pk usr) (get_for_model obj) (obj_pk obj))
            = (if v = 0 then [] else [v])"
proof -
  let ?u = "user_pk usr" and ?ct = "get_for_model obj" and ?oid = "obj_pk obj"
  have u: "unique_together s" using assms(1) by (simp add: wf_store_def)
  show ?thesis
  proof (rule lookup_cases [OF u, of ?u ?ct ?oid])
    assume e: "lookup s ?u ?ct ?oid = []"
    show ?thesis
    proof (cases "v = 0")
      case True
      then have "record_vote s obj usr v = (Inr (), s)"
        using record_vote_absent [OF e assms(2)] by simp
      then show ?thesis using True e assms(1) by simp
    next
      case False
      let ?s' = "s\<lparr>votes := votes s @
              [\<lparr>pk = next_pk s, user_id = ?u, content_type_id = ?ct, object_id = ?oid, vote = v\<rparr>],
            next_pk := next_pk s + 1\<rparr>"
      have "record_vote s obj usr v = (Inr (), ?s')"
        using record_vote_absent [OF e assms(2)] False nn by simp
      moreover have "wf_store ?s'" by (rule wf_create [OF assms(1) e])
      moreover have "map vote (lookup ?s' ?u ?ct ?oid) = [v]"
        unfolding lookup_create [OF e] by simp
      ultimately show ?thesis using False by simp
    qed
  next
    fix r assume e: "lookup s ?u ?ct ?oid = [r]"
    have mem: "r \<in> set (votes s)" using lookup_single_mem [OF e] by simp
    show ?thesis
    proof (cases "v = 0")
      case True
      let ?s' = "s\<lparr>votes := filter (\<lambda>x. pk x \<noteq> pk r) (votes s)\<rparr>"
      have "record_vote s obj usr v = (Inr (), ?s')"
        using record_vote_present [OF e assms(2)] True by simp
      moreover have "wf_store ?s'" by (rule wf_delete [OF assms(1)])
      moreover have "lookup ?s' ?u ?ct ?oid = []"
        unfolding lookup_delete e by simp
      ultimately show ?thesis using True by simp
    next
      case False
      let ?s' = "s\<lparr>votes := map (\<lambda>x. if pk x = pk r then r\<lparr>vote := v\<rparr> else x) (votes s)\<rparr>"
      have "record_vote s obj usr v = (Inr (), ?s')"
        using record_vote_present [OF e assms(2)] False nn by simp
      moreover have "wf_store ?s'" by (rule wf_update [OF assms(1) mem])
      moreover have "map vote (lookup ?s' ?u ?ct ?oid) = [v]"
        unfolding lookup_update [OF assms(1) e] by simp
      ultimately show ?thesis using False by simp
    qed
  qed
qed

text \<open>
  An object id below 0 cannot be stored: the first non-zero vote on such an object is
  refused by the table and leaves it as it was.
\<close>

lemma record_vote_negative_id:
  assumes "existing s obj usr = []" and "v \<in> {1, - 1}" and "obj_pk obj < 0"
  shows "record_vote s obj usr v = (Inl IntegrityError, s)"
  using record_vote_absent [OF assms(1), of v] assms(2,3) by auto

text \<open>
  Claim C2. For a value among +1, 0 and -1, an object whose id is not negative and a
  database in a legal state, \<open>record_vote\<close> succeeds and does one of four things. The user has no record or exactly one record on
  the object. With a record and value 0, that record is removed and every other row is
  kept. With a record and another value, that record's value is overwritten and nothing
  else changes. With no record and value 0, the database is returned as it was. With no
  record and another value, one row with that value is appended.
\<close>

theorem record_vote_four_cases:
  assumes "wf_store s" and "v \<in> {1, 0, - 1}" and "0 \<le> obj_pk obj"
  shows "(existing s obj usr = [] \<or> (\<exists>r. existing s obj usr = [r])) \<and>
    (\<forall>r. existing s obj usr = [r] \<and> v = 0 \<longrightarrow>
        record_vote s obj usr v = (Inr (), s\<lparr>votes := removeAll r (votes s)\<rparr>)) \<and>
    (\<forall>r. existing s obj usr = [r] \<and> v \<noteq> 0 \<longrightarrow>
        record_vote s obj usr v =
          (Inr (), s\<lparr>votes := map (\<lambda>x. if x = r then r\<lparr>vote := v\<rparr> else x) (votes s)\<rparr>)) \<and>
    (existing s obj usr = [] \<and> v = 0 \<longrightarrow> record_vote s obj usr v = (Inr (), s)) \<and>
    (existing s obj usr = [] \<and> v \<noteq> 0 \<longrightarrow>
        record_vote s obj usr v =
          (Inr (), s\<lparr>votes := votes s @
              [\<lparr>pk = next_pk s, user_id = user_pk usr, content_type_id = get_for_model obj,
                object_id = obj_pk obj, vote = v\<rparr>],
            next_pk := next_pk s + 1\<rparr>))"
proof -
  have u: "unique_together s" using assms(1) by (simp add: wf_store_def)
  have c1: "existing s obj usr = [] \<or> (\<exists>r. existing s obj usr = [r])"
    by (rule lookup_cases [OF u]) auto
  have c2: "record_vote s obj usr v = (Inr (), s\<lparr>votes := removeAll r (votes s)\<rparr>)"
    if e: "existing s obj usr = [r]" and "v = 0" for r
  proof -
    have mem: "r \<in> set (votes s)" using lookup_single_mem [OF e] by simp
    show ?thesis
      using record_vote_present [OF e assms(2)] that(2)
      by (simp add: delete_as_row_eq [OF assms(1) mem])
  qed
  have c3: "record_vote s obj usr v =
      (Inr (), s\<lparr>votes := map (\<lambda>x. if x = r then r\<lparr>vote := v\<rparr> else x) (votes s)\<rparr>)"
    if e: "existing s obj usr = [r]" and "v \<noteq> 0" for r
  proof -
    have mem: "r \<in> set (votes s)" using lookup_single_mem [OF e] by simp
    show ?thesis
      using record_vote_present [OF e assms(2)] that(2) assms(3)
      by (simp add: update_as_row_eq [OF assms(1) mem])
  qed
  have c4: "record_vote s obj usr v = (Inr (), s)" if "existing s obj usr = []" "v = 0"
    using record_vote_absent [OF that(1) assms(2)] that(2) by simp
  have c5: "record_vote s obj usr v =
          (Inr (), s\<lparr>votes := votes s @
              [\<lparr>pk = next_pk s, user_id = user_pk usr, content_type_id = get_for_model obj,
                object_id = obj_pk obj, vote = v\<rparr>],
            next_pk := next_pk s + 1\<rparr>)" if "existing s obj usr = []" "v \<noteq> 0"
    using record_vote_absent [OF that(1) assms(2)] that(2) assms(3) by simp
  show ?thesis
    using c1 c2 c3 c4 c5 by blast
qed

lemma wf_ex_store: "wf_store ex_store"
  by code_simp

theorem record_vote_four_cases_witness:
  "wf_store ex_store \<and> (- 1 :: int) \<in> {1, 0, - 1} \<and> 0 \<le> obj_pk (ex_obj 10) \<and>
   existing ex_store (ex_obj 10) ex_user = [vote_row 1 1 10 1] \<and> (- 1 :: int) \<noteq> 0 \<and>
   record_vote ex_store (ex_obj 10) ex_user (- 1) =
     (Inr (), ex_store\<lparr>votes := map (\<lambda>x. if x = vote_row 1 1 10 1
                                            then (vote_row 1 1 10 1)\<lparr>vote := - 1\<rparr> else x)
                                   (votes ex_store)\<rparr>)"
proof -
  have v: "(- 1 :: int) \<in> {1, 0, - 1}" and n: "(- 1 :: int) \<noteq> 0" by simp_all
  have e: "existing ex_store (ex_obj 10) ex_user = [vote_row 1 1 10 1]" by code_simp
  have p: "0 \<le> obj_pk (ex_obj 10)" by (simp add: ex_obj_def)
  show ?thesis
    using record_vote_four_cases [OF wf_ex_store v p, where usr = ex_user]
      wf_ex_store v n e p
    by blast
qed

subsection \<open>A sequence of calls\<close>

lemma last_nonzero: "vs \<noteq> [] \<Longrightarrow> last vs \<noteq> (0::int) \<Longrightarrow> last (filter (\<lambda>v. v \<noteq> 0) vs) = last vs"
  by (induction vs) (auto simp: filter_empty_conv)

lemma settled_Cons:
  assumes "settled s' obj usr vs" and "vs \<noteq> []"
  shows "settled s' obj usr (v # vs)"
proof -
  have "last (filter (\<lambda>v. v \<noteq> 0) (v # vs)) = last (filter (\<lambda>v. v \<noteq> 0) vs)" if "last vs \<noteq> 0"
    using last_nonzero [OF assms(2) that] last_nonzero [of "v # vs"] assms(2) that by simp
  then show ?thesis
    using assms by (simp add: settled_def)
qed

lemma settled_single:
  assumes "wf_store s1"
    and "map vote (lookup s1 (user_pk usr) (get_for_model obj) (obj_pk obj)) = (if v = 0 then [] else [v])"
  shows "settled s1 obj usr [v]"
  using assms lookup_le1 [of s1 "user_pk usr" "get_for_model obj" "obj_pk obj"]
  by (simp add: settled_def wf_store_def)

lemma record_votes_settled:
  assumes "wf_store s" and "set vs \<subseteq> {1, 0, - 1}" and "vs \<noteq> []" and nn: "0 \<le> obj_pk obj"
  shows "\<exists>s'. record_votes s obj usr vs = (Inr (), s') \<and> settled s' obj usr vs"
  using assms
proof (induction vs arbitrary: s)
  case Nil
  then show ?case by simp
next
  case (Cons v vs)
  from Cons.prems have v: "v \<in> {1, 0, - 1}" and vs: "set vs \<subseteq> {1, 0, - 1}" by simp_all
  from record_vote_step [OF Cons.prems(1) v Cons.prems(4), where usr = usr]
  obtain s1 where s1: "record_vote s obj usr v = (Inr (), s1)" "wf_store s1"
    "map vote (lookup s1 (user_pk usr) (get_for_model obj) (obj_pk obj)) = (if v = 0 then [] else [v])"
    by blast
  show ?case
  proof (cases "vs = []")
    case True
    have "record_votes s obj usr (v # vs) = (Inr (), s1)"
      using s1(1) True by simp
    then show ?thesis using settled_single [OF s1(2,3)] True by simp
  next
    case False
    from Cons.IH [OF s1(2) vs False Cons.prems(4)]
    obtain s' where s': "record_votes s1 obj usr vs = (Inr (), s')" "settled s' obj usr vs"
      by blast
    have "record_votes s obj usr (v # vs) = (Inr (), s')"
      using s1(1) s'(1) by simp
    then show ?thesis using settled_Cons [OF s'(2) False] by simp
  qed
qed

text \<open>
  Claim C1. From a database in a legal state, any sequence of \<open>record_vote\<close> calls with
  values among +1, 0 and -1, by one user on one object whose id is not negative, runs to
  its end without an exception and leaves a legal state with at most one record of that
  user on that object. If there was at least one call, then no record exists when the
  last value was 0, and otherwise exactly one exists and its value is the last non-zero
  value submitted.
\<close>

theorem record_votes_unique:
  assumes "wf_store s" and "set vs \<subseteq> {1, 0, - 1}" and "0 \<le> obj_pk obj"
  shows "\<exists>s'. record_votes s obj usr vs = (Inr (), s') \<and> wf_store s' \<and>
          length (existing s' obj usr) \<le> 1 \<and>
          (vs \<noteq> [] \<longrightarrow>
             map vote (existing s' obj usr)
               = (if last vs = 0 then [] else [last (filter (\<lambda>v. v \<noteq> 0) vs)]))"
proof (cases "vs = []")
  case True
  have "length (existing s obj usr) \<le> 1"
    using assms(1) lookup_le1 [of s] by (simp add: wf_store_def)
  then show ?thesis using True assms(1) by simp
next
  case False
  from record_votes_settled [OF assms(1,2) False assms(3), where usr = usr]
  obtain s' where "record_votes s obj usr vs = (Inr (), s')" and "settled s' obj usr vs"
    by blast
  then show ?thesis
    unfolding settled_def by blast
qed

lemma wf_empty_store: "wf_store empty_store"
  by code_simp

theorem record_votes_unique_witness:
  "wf_store empty_store \<and> set [1, - 1, 0, - 1 :: int] \<subseteq> {1, 0, - 1} \<and>
   0 \<le> obj_pk (ex_obj 10) \<and>
   (\<exists>s'. record_votes empty_store (ex_obj 10) ex_user [1, - 1, 0, - 1] = (Inr (), s') \<and>
         map vote (existing s' (ex_obj 10) ex_user) = [- 1])"
proof -
  have h: "set [1, - 1, 0, - 1 :: int] \<subseteq> {1, 0, - 1}" by simp
  have p: "0 \<le> obj_pk (ex_obj 10)" by (simp add: ex_obj_def)
  from record_votes_unique [OF wf_empty_store h p, where usr = ex_user]
  obtain s' where r: "record_votes empty_store (ex_obj 10) ex_user [1, - 1, 0, - 1] = (Inr (), s')"
    and m: "[1, - 1, 0, - 1 :: int] \<noteq> [] \<longrightarrow>
         map vote (existing s' (ex_obj 10) ex_user)
           = (if last [1, - 1, 0, - 1 :: int] = 0 then []
              else [last (filter (\<lambda>v. v \<noteq> 0) [1, - 1, 0, - 1 :: int])])"
    by blast
  from m have "map vote (existing s' (ex_obj 10) ex_user) = [- 1]" by simp
  with r have "\<exists>s'. record_votes empty_store (ex_obj 10) ex_user [1, - 1, 0, - 1] = (Inr (), s') \<and>
         map vote (existing s' (ex_obj 10) ex_user) = [- 1]"
    by (intro exI [of _ s'] conjI)
  with wf_empty_store h p show ?thesis by (intro conjI)
qed

section \<open>Invalid votes\<close>

text \<open>
  Claim C5. A vote value other than +1, 0 and -1 makes \<open>record_vote\<close> raise the
  \<^verbatim>\<open>ValueError\<close> for an invalid vote. The outcome is the same whatever the database
  holds, since the check comes before the first read, and the database after the call
  is the database before it.
\<close>

theorem record_vote_invalid:
  "v \<noteq> 1 \<Longrightarrow> v \<noteq> 0 \<Longrightarrow> v \<noteq> - 1 \<Longrightarrow>
   record_vote s obj usr v = (Inl (ValueError ''Invalid vote (must be +1/0/-1)''), s) \<and>
   fst (record_vote s' obj usr v) = fst (record_vote s obj usr v)"
  by (simp add: record_vote_def)

theorem record_vote_invalid_witness:
  "(2::int) \<noteq> 1 \<and> (2::int) \<noteq> 0 \<and> (2::int) \<noteq> - 1 \<and>
   record_vote \<lparr>votes = [\<lparr>pk = 1, user_id = 7, content_type_id = 3, object_id = 4, vote = 1\<rparr>],
                 next_pk = 2\<rparr>
               \<lparr>obj_ctype = 3, obj_pk = 4\<rparr> \<lparr>user_pk = 7, is_authenticated = True\<rparr> 2
   = (Inl (ValueError ''Invalid vote (must be +1/0/-1)''),
      \<lparr>votes = [\<lparr>pk = 1, user_id = 7, content_type_id = 3, object_id = 4, vote = 1\<rparr>],
       next_pk = 2\<rparr>)"
  using record_vote_invalid [of 2] by simp

section \<open>What the database makes of the query texts\<close>

subsection \<open>The score query and the ranking query\<close>

lemma parse_get_score_query:
  "sql_parse (sql_lex [] get_score_query) =
     Some \<lparr>items = [SumVote, CountStar], from_table = quote_name db_table, obj_where = ObjectEq,
            group_by = False, having = None, order_by = None, limited = False\<rparr>"
  by code_simp

text \<open>
  In the text of \<^verbatim>\<open>get_top\<close> nothing separates the column of \<^verbatim>\<open>GROUP BY\<close> from the word
  \<^verbatim>\<open>HAVING\<close>: the two are one token, no \<^verbatim>\<open>HAVING\<close> clause follows, and the statement
  does not parse.
\<close>

lemma lex_get_top_query:
  "sql_lex [] (get_top_query False) =
     [''SELECT'', ''object_id'', '','', ''SUM'', ''('', ''vote'', '')'', ''FROM'', quote_name db_table,
      ''WHERE'', ''content_type_id'', ''='', ''%s'', ''GROUP'', ''BY'', ''object_idHAVING'',
      ''SUM'', ''('', ''vote'', '')'', ''>'', ''0'', ''ORDER'', ''BY'', ''SUM'', ''('', ''vote'', '')'',
      ''DESC'', ''LIMIT'', ''%s'']"
  by code_simp

lemma parse_get_top_query_False: "sql_parse (sql_lex [] (get_top_query False)) = None"
  by code_simp

lemma parse_get_top_query_True: "sql_parse (sql_lex [] (get_top_query True)) = None"
  by code_simp

lemma parse_get_top_query: "sql_parse (sql_lex [] (get_top_query reversed)) = None"
  by (cases reversed) (simp_all only: parse_get_top_query_False parse_get_top_query_True)

lemma get_top_fails: "get_top s M limit reversed = Inl ProgrammingError"
  by (simp add: get_top_def execute_fetchall_def parse_get_top_query)

text \<open>
  With a space between the two the same database runs the statement: on the example it
  returns the objects with a positive sum, highest first, cut at the limit.
\<close>

lemma separated_query_ranks:
  "execute_fetchall ex_store
     (''\<newline>SELECT object_id, SUM(vote)\<newline>FROM '' @ quote_name db_table @
      ''\<newline>WHERE content_type_id = %s\<newline>GROUP BY object_id'' @
      '' HAVING SUM(vote) > 0 ORDER BY SUM(vote) DESC LIMIT %s'') [PyInt 1, PyInt 2]
   = Inr ([PyInt 10, PyInt 5] # [PyInt 30, PyInt 2] # [])"
  by code_simp

lemma get_score_eq:
  "get_score s obj =
     Inr \<lparr>score = PyInt (sum_votes (filter (\<lambda>r. content_type_id r = get_for_model obj \<and>
                                               object_id r = obj_pk obj) (votes s))),
          num_votes = PyInt (int (length (filter (\<lambda>r. content_type_id r = get_for_model obj \<and>
                                               object_id r = obj_pk obj) (votes s))))\<rparr>"
  by (simp add: get_score_def execute_fetchall_def parse_get_score_query exec_select_def
        n_obj_params_def select_groups_def having_holds_def order_groups_def project_item_def
        sql_sum_def py_or_def sum_votes_def Let_def)


lemma get_score_votes_for:
  "get_score s obj =
     Inr \<lparr>score = PyInt (sum_votes (votes_for s (get_for_model obj) (obj_pk obj))),
          num_votes = PyInt (int (length (votes_for s (get_for_model obj) (obj_pk obj))))\<rparr>"
  unfolding votes_for_def by (rule get_score_eq)

subsection \<open>The bulk score query\<close>

lemma sql_lex_punct:
  "is_punct c \<Longrightarrow> sql_lex w (xs @ c # ys) = sql_lex w xs @ [c] # sql_lex [] ys"
proof (induction xs arbitrary: w)
  case Nil
  then show ?case by (simp add: is_punct_def is_space_def) auto
next
  case (Cons x xs)
  then show ?case by simp
qed

lemma sql_lex_placeholder: "sql_lex [] ''%s'' = [''%s'']"
  by code_simp

lemma punct_comma: "is_punct CHR '',''" and punct_open: "is_punct CHR ''(''"
  and punct_close: "is_punct CHR '')''"
  by (simp_all add: is_punct_def)

lemma sql_lex_join:
  "sql_lex [] (join '','' (replicate (Suc n) ''%s'')) = join ['',''] (replicate (Suc n) [''%s''])"
proof (induction n)
  case 0
  show ?case by (simp add: sql_lex_placeholder del: sql_lex.simps)
next
  case (Suc n)
  have "sql_lex [] (join '','' (replicate (Suc (Suc n)) ''%s''))
        = sql_lex [] (''%s'' @ CHR '','' # join '','' (replicate (Suc n) ''%s''))"
    by simp
  also have "\<dots> = sql_lex [] ''%s'' @ '','' # sql_lex [] (join '','' (replicate (Suc n) ''%s''))"
    by (rule sql_lex_punct [OF punct_comma])
  also have "\<dots> = [''%s''] @ '','' # join ['',''] (replicate (Suc n) [''%s''])"
    by (simp only: sql_lex_placeholder Suc)
  also have "\<dots> = join ['',''] (replicate (Suc (Suc n)) [''%s''])"
    by simp
  finally show ?case .
qed

lemma parse_placeholders_join:
  "c \<noteq> '','' \<Longrightarrow>
   parse_placeholders (join ['',''] (replicate (Suc n) [''%s'']) @ c # rest) = Some (Suc n, c # rest)"
  by (induction n) simp_all

lemma bulk_query_split:
  "get_scores_in_bulk_query n =
     bulk_prefix @ CHR ''('' # (join '','' (replicate n ''%s'') @ CHR '')'' # ''\<newline>GROUP BY object_id'')"
  by (simp add: get_scores_in_bulk_query_def bulk_prefix_def)

lemma lex_bulk_prefix:
  "sql_lex [] bulk_prefix =
     [''SELECT'', ''object_id'', '','', ''SUM'', ''('', ''vote'', '')'', '','',
      ''COUNT'', ''('', ''vote'', '')'', ''FROM'', quote_name db_table,
      ''WHERE'', ''content_type_id'', ''='', ''%s'', ''AND'', ''object_id'', ''IN'']"
  by code_simp

lemma lex_bulk_suffix: "sql_lex [] ''\<newline>GROUP BY object_id'' = [''GROUP'', ''BY'', ''object_id'']"
  by code_simp

lemma lex_bulk_query:
  "sql_lex [] (get_scores_in_bulk_query (Suc n)) =
     [''SELECT'', ''object_id'', '','', ''SUM'', ''('', ''vote'', '')'', '','',
      ''COUNT'', ''('', ''vote'', '')'', ''FROM'', quote_name db_table,
      ''WHERE'', ''content_type_id'', ''='', ''%s'', ''AND'', ''object_id'', ''IN'', ''(''] @
     join ['',''] (replicate (Suc n) [''%s'']) @ [ '')'', ''GROUP'', ''BY'', ''object_id'']"
  unfolding bulk_query_split sql_lex_punct [OF punct_open] sql_lex_punct [OF punct_close]
    sql_lex_join lex_bulk_prefix lex_bulk_suffix
  by simp

lemma parse_bulk_query:
  "sql_parse (sql_lex [] (get_scores_in_bulk_query (Suc n))) =
     Some \<lparr>items = [ObjectId, SumVote, CountVote], from_table = quote_name db_table,
            obj_where = ObjectIn (Suc n), group_by = True, having = None, order_by = None,
            limited = False\<rparr>"
  unfolding lex_bulk_query
  by (simp add: sql_parse_def parse_item_def parse_tail_def parse_obj_cond_def
        parse_placeholders_join parse_group_def parse_having_def parse_order_def parse_limit_def
        del: replicate.simps)

lemma those_map_Some: "those (map (\<lambda>x. Some (f x)) xs) = Some (map f xs)"
  by (induction xs) simp_all

lemma PyInt_image: "PyInt x \<in> (\<lambda>ob. PyInt (f ob)) ` A \<longleftrightarrow> x \<in> f ` A"
  by auto

lemma get_scores_in_bulk_eq:
  assumes "objects \<noteq> []"
  shows "get_scores_in_bulk s objects =
     Inr (py_dict (map (\<lambda>k. (PyInt k,
            \<lparr>score = sql_sum (filter (\<lambda>r. object_id r = k) (bulk_matched s objects)),
             num_votes = PyInt (int (length (filter (\<lambda>r. object_id r = k) (bulk_matched s objects))))\<rparr>))
          (remdups (map object_id (bulk_matched s objects)))))"
proof -
  obtain ob0 obs where o: "objects = ob0 # obs" using assms by (cases objects) auto
  have ex: "execute_fetchall s (get_scores_in_bulk_query (length objects))
              (PyInt (get_for_model ob0) # map (\<lambda>ob. PyInt (obj_pk ob)) objects)
        = Inr (map (\<lambda>k. [PyInt k,
                 sql_sum (filter (\<lambda>r. object_id r = k) (bulk_matched s objects)),
                 PyInt (int (length (filter (\<lambda>r. object_id r = k) (bulk_matched s objects))))])
               (remdups (map object_id (bulk_matched s objects))))"
    unfolding o
    by (simp add: execute_fetchall_def parse_bulk_query exec_select_def n_obj_params_def
          select_groups_def having_holds_def order_groups_def project_item_def Let_def o_def
          bulk_matched_def PyInt_image)
  show ?thesis
    unfolding get_scores_in_bulk_def Let_def
    using ex [unfolded o] by (simp add: o o_def those_map_Some)
qed

section \<open>Scores\<close>

text \<open>
  Claim C4. For an object with no stored votes \<open>get_score\<close> raises nothing and returns
  the dictionary with score 0 and 0 votes: the database answers the aggregate query with
  one row, \<^verbatim>\<open>NULL\<close> and 0, and \<^verbatim>\<open>or 0\<close> turns the \<^verbatim>\<open>NULL\<close> into 0.
\<close>

theorem get_score_unvoted:
  "votes_for s (get_for_model obj) (obj_pk obj) = [] \<Longrightarrow>
   get_score s obj = Inr \<lparr>score = PyInt 0, num_votes = PyInt 0\<rparr>"
  by (simp add: get_score_votes_for sum_votes_def)

theorem get_score_unvoted_witness:
  "votes_for ex_store (get_for_model \<lparr>obj_ctype = 1, obj_pk = 50\<rparr>) (obj_pk \<lparr>obj_ctype = 1, obj_pk = 50\<rparr>) = []
   \<and> get_score ex_store \<lparr>obj_ctype = 1, obj_pk = 50\<rparr> = Inr \<lparr>score = PyInt 0, num_votes = PyInt 0\<rparr>"
proof -
  have h: "votes_for ex_store (get_for_model \<lparr>obj_ctype = 1, obj_pk = 50\<rparr>)
             (obj_pk \<lparr>obj_ctype = 1, obj_pk = 50\<rparr>) = []"
    by code_simp
  show ?thesis using h get_score_unvoted [OF h] by simp
qed

lemma map_of_keyed:
  "inj f \<Longrightarrow> map_of (map (\<lambda>k. (f k, g k)) ks) (f k) = (if k \<in> set ks then Some (g k) else None)"
  by (induction ks) (auto dest: injD)

lemma py_dict_keyed:
  "inj f \<Longrightarrow> py_dict (map (\<lambda>k. (f k, g k)) ks) (f k) = (if k \<in> set ks then Some (g k) else None)"
  using map_of_keyed [of f g "rev ks" k] by (simp add: py_dict_def rev_map)

lemma py_dict_dom:
  "py_dict (map (\<lambda>k. (f k, g k)) ks) x = Some e \<Longrightarrow> \<exists>k \<in> set ks. x = f k"
  unfolding py_dict_def by (auto dest!: map_of_SomeD)

lemma inj_PyInt: "inj PyInt"
  by (simp add: inj_def)

lemma bulk_group:
  assumes "ob \<in> set objects" and "get_for_model ob = get_for_model (hd objects)"
  shows "filter (\<lambda>r. object_id r = obj_pk ob) (bulk_matched s objects)
         = votes_for s (get_for_model ob) (obj_pk ob)"
  unfolding bulk_matched_def votes_for_def using assms
  by (auto intro: filter_cong)

text \<open>
  Claim C8. For a non-empty list of objects of one content type, \<open>get_scores_in_bulk\<close>
  returns a dictionary; each of its keys is the id of one of the objects, and the entry
  under the id of an object is the dictionary \<open>get_score\<close> returns for that object.
\<close>

theorem bulk_single_consistent:
  assumes "objects \<noteq> []"
    and "\<forall>ob \<in> set objects. get_for_model ob = get_for_model (hd objects)"
  shows "\<exists>m. get_scores_in_bulk s objects = Inr m \<and>
           (\<forall>k e. m k = Some e \<longrightarrow> (\<exists>ob \<in> set objects. k = PyInt (obj_pk ob))) \<and>
           (\<forall>ob \<in> set objects. \<forall>e. m (PyInt (obj_pk ob)) = Some e \<longrightarrow> get_score s ob = Inr e)"
proof -
  let ?grp = "\<lambda>k. filter (\<lambda>r. object_id r = k) (bulk_matched s objects)"
  let ?ent = "\<lambda>k. \<lparr>score = sql_sum (?grp k), num_votes = PyInt (int (length (?grp k)))\<rparr>"
  let ?ks = "remdups (map object_id (bulk_matched s objects))"
  let ?m = "py_dict (map (\<lambda>k. (PyInt k, ?ent k)) ?ks)"
  have run: "get_scores_in_bulk s objects = Inr ?m"
    by (rule get_scores_in_bulk_eq [OF assms(1)])
  have keys: "\<exists>ob \<in> set objects. k = PyInt (obj_pk ob)" if "?m k = Some e" for k e
  proof -
    from py_dict_dom [OF that] obtain i where i: "i \<in> set ?ks" "k = PyInt i" by blast
    then have "i \<in> obj_pk ` set objects" by (auto simp: bulk_matched_def)
    with i(2) show ?thesis by auto
  qed
  have vals: "get_score s ob = Inr e" if ob: "ob \<in> set objects" and e: "?m (PyInt (obj_pk ob)) = Some e"
    for ob e
  proof -
    have ct: "get_for_model ob = get_for_model (hd objects)" using assms(2) ob by simp
    have mem: "obj_pk ob \<in> set ?ks" and e': "e = ?ent (obj_pk ob)"
      using e unfolding py_dict_keyed [OF inj_PyInt] by (simp_all split: if_splits)
    have grp: "?grp (obj_pk ob) = votes_for s (get_for_model ob) (obj_pk ob)"
      by (rule bulk_group [OF ob ct])
    have "?grp (obj_pk ob) \<noteq> []"
      using mem by (auto simp: filter_empty_conv)
    then have "sql_sum (?grp (obj_pk ob)) = PyInt (sum_votes (?grp (obj_pk ob)))"
      by (simp add: sql_sum_def)
    then show ?thesis
      unfolding get_score_votes_for e' grp by simp
  qed
  show ?thesis using run keys vals by blast
qed

theorem bulk_single_consistent_witness:
  "[ex_obj 10, ex_obj 40, ex_obj 50] \<noteq> [] \<and>
   list_all (\<lambda>ob. get_for_model ob = get_for_model (hd [ex_obj 10, ex_obj 40, ex_obj 50]))
     [ex_obj 10, ex_obj 40, ex_obj 50] \<and>
   projr (get_scores_in_bulk ex_store [ex_obj 10, ex_obj 40, ex_obj 50]) (PyInt (obj_pk (ex_obj 40)))
     = Some \<lparr>score = PyInt 0, num_votes = PyInt 2\<rparr> \<and>
   get_score ex_store (ex_obj 40) = Inr \<lparr>score = PyInt 0, num_votes = PyInt 2\<rparr>"
proof -
  let ?objs = "[ex_obj 10, ex_obj 40, ex_obj 50]"
  have n: "?objs \<noteq> []" by simp
  have k: "\<forall>ob \<in> set ?objs. get_for_model ob = get_for_model (hd ?objs)"
    by (simp add: ex_obj_def get_for_model_def)
  have v: "projr (get_scores_in_bulk ex_store ?objs) (PyInt (obj_pk (ex_obj 40)))
             = Some \<lparr>score = PyInt 0, num_votes = PyInt 2\<rparr>"
    by code_simp
  from bulk_single_consistent [OF n k, of ex_store]
  obtain m where m: "get_scores_in_bulk ex_store ?objs = Inr m"
    and c: "\<forall>ob \<in> set ?objs. \<forall>e. m (PyInt (obj_pk ob)) = Some e \<longrightarrow> get_score ex_store ob = Inr e"
    by blast
  from v m have "m (PyInt (obj_pk (ex_obj 40))) = Some \<lparr>score = PyInt 0, num_votes = PyInt 2\<rparr>"
    by simp
  moreover have "ex_obj 40 \<in> set ?objs" by simp
  ultimately have "get_score ex_store (ex_obj 40) = Inr \<lparr>score = PyInt 0, num_votes = PyInt 2\<rparr>"
    using c by blast
  moreover have "list_all (\<lambda>ob. get_for_model ob = get_for_model (hd ?objs)) ?objs"
    using k by (simp only: list_all_iff)
  ultimately show ?thesis using n v by (intro conjI)
qed

section \<open>Bulk lookups on empty and on mixed input\<close>

text \<open>
  Claim C6. On an empty list of objects \<open>get_for_user_in_bulk\<close> returns the empty
  dictionary, whereas \<open>get_scores_in_bulk\<close> raises \<^verbatim>\<open>IndexError\<close>: it reads
  \<^verbatim>\<open>objects[0]\<close> without the length test its sibling makes.
\<close>

theorem bulk_empty_input:
  "get_for_user_in_bulk s [] usr = Map.empty \<and> get_scores_in_bulk s [] = Inl IndexError"
  by (simp add: get_for_user_in_bulk_def get_scores_in_bulk_def)




section \<open>Rankings\<close>

text \<open>
  Claim C3. On the example database \<open>get_top\<close> and \<open>get_bottom\<close> with limit 2 do not
  return the ranked sums: the database refuses the statement, whose \<^verbatim>\<open>GROUP BY\<close> column
  runs into the word \<^verbatim>\<open>HAVING\<close>, and both raise the database's error.
\<close>

theorem get_top_query_rejected:
  "get_top ex_store ex_model 2 False = Inl ProgrammingError \<and>
   get_bottom ex_store ex_model 2 = Inl ProgrammingError"
  by (simp add: get_top_fails get_bottom_def)

subsection \<open>Objects that no longer exist\<close>

text \<open>
  The code after the query, on rows of an id and a sum: it raises nothing, keeps in the
  order of the rows each row whose id the model's table resolves, paired with the object
  and its sum, and drops each row whose id is missing.
\<close>

lemma yield_pairs_map_filter:
  assumes "\<forall>p \<in> set pairs. objects (fst p) = get_object M (fst p)"
  shows "yield_pairs objects pairs
         = List.map_filter (\<lambda>(k, sc). map_option (\<lambda>ob. (ob, sc)) (get_object M k)) pairs"
  using assms
  by (induction pairs) (auto simp: List.map_filter_simps split: option.splits)

lemma unpack_pairs: "those (map unpack2 (map (\<lambda>(k, sc). [k, sc]) pairs)) = Some pairs"
  by (induction pairs) auto

lemma resolve_results_map_filter:
  "resolve_results M (map (\<lambda>(k, sc). [k, sc]) pairs)
   = Inr (List.map_filter (\<lambda>(k, sc). map_option (\<lambda>ob. (ob, sc)) (get_object M k)) pairs)"
proof -
  have "yield_pairs (in_bulk M (map fst pairs)) pairs
        = List.map_filter (\<lambda>(k, sc). map_option (\<lambda>ob. (ob, sc)) (get_object M k)) pairs"
    by (rule yield_pairs_map_filter) (simp add: in_bulk_def)
  then show ?thesis
    by (simp add: resolve_results_def unpack_pairs del: map_map)
qed

text \<open>
  In the example object 20 is missing from the model's table. Given the rows a ranking
  would fetch there, the loop yields the objects 10 and 30 with their sums for the top
  list and nothing for the bottom list.
\<close>

lemma resolve_results_example:
  "resolve_results ex_model ([PyInt 10, PyInt 5] # [PyInt 30, PyInt 2] # [])
     = Inr [(''A'', PyInt 5), (''C'', PyInt 2)] \<and>
   resolve_results ex_model ([PyInt 20, PyInt (- 3)] # []) = Inr []"
  by code_simp

text \<open>
  Claim C9. With object 20 missing from the model's table, \<open>get_top\<close> and \<open>get_bottom\<close>
  on the example (limit 10) do not return the entries of the objects that remain, without
  an entry for object 20: the database refuses the statement of C3 before any id is
  resolved, the loop that drops missing objects is never reached, and both raise the
  database's error.
\<close>

theorem get_top_missing_object_raises:
  "get_object ex_model (PyInt 20) = None \<and>
   get_top ex_store ex_model 10 False = Inl ProgrammingError \<and>
   get_bottom ex_store ex_model 10 = Inl ProgrammingError"
  by (simp add: get_top_fails get_bottom_def get_object_def ex_model_def)

section \<open>Votes of a user\<close>

lemma map_of_all_same:
  assumes "k \<in> fst ` set xs" and "\<forall>p \<in> set xs. fst p = k \<longrightarrow> snd p = v"
  shows "map_of xs k = Some v"
proof -
  from assms(1) obtain w where "map_of xs k = Some w"
    by (metis domD dom_map_of_conv_image_fst)
  moreover from this have "(k, w) \<in> set xs" by (rule map_of_SomeD)
  ultimately show ?thesis using assms(2) by auto
qed

lemma get_for_user_in_bulk_eq:
  "objects \<noteq> [] \<Longrightarrow>
   get_for_user_in_bulk s objects usr = py_dict (map (\<lambda>v. (object_id v, v)) (bulk_found s objects usr))"
  by (cases objects) (simp_all add: get_for_user_in_bulk_def bulk_found_def)

text \<open>
  Claim C10. \<open>get_for_user_in_bulk\<close> does not look at \<^verbatim>\<open>is_authenticated\<close>: for a
  non-empty list of objects its result is the same for a user with and without the flag,
  namely the dictionary, by object id, of the rows with the user's id, the content type
  of the first object and an id among the objects'. So for an unauthenticated user who
  has a record on one of the objects, \<open>get_for_user\<close> returns \<^verbatim>\<open>None\<close> and the bulk
  lookup returns that record.
\<close>

theorem get_for_user_in_bulk_unauthenticated:
  assumes "objects \<noteq> []"
  shows "get_for_user_in_bulk s objects (usr\<lparr>is_authenticated := b\<rparr>) = get_for_user_in_bulk s objects usr \<and>
         get_for_user_in_bulk s objects usr
           = py_dict (map (\<lambda>v. (object_id v, v)) (bulk_found s objects usr)) \<and>
         (\<not> is_authenticated usr \<and> obj \<in> set objects \<and>
          get_for_model obj = get_for_model (hd objects) \<and>
          lookup s (user_pk usr) (get_for_model obj) (obj_pk obj) = [r] \<longrightarrow>
            get_for_user s obj usr = Inr None \<and>
            get_for_user_in_bulk s objects usr (obj_pk obj) = Some r)"
proof -
  have a: "get_for_user_in_bulk s objects (usr\<lparr>is_authenticated := b\<rparr>) = get_for_user_in_bulk s objects usr"
    by (simp add: get_for_user_in_bulk_eq [OF assms] bulk_found_def)
  have c: "get_for_user_in_bulk s objects usr (obj_pk obj) = Some r"
    if ob: "obj \<in> set objects" and ct: "get_for_model obj = get_for_model (hd objects)"
      and l: "lookup s (user_pk usr) (get_for_model obj) (obj_pk obj) = [r]"
  proof -
    let ?xs = "rev (map (\<lambda>v. (object_id v, v)) (bulk_found s objects usr))"
    have mem: "r \<in> set (votes s)" and key: "vote_key r = (user_pk usr, get_for_model obj, obj_pk obj)"
      using lookup_single_mem [OF l] by simp_all
    have rin: "r \<in> set (bulk_found s objects usr)"
      using mem key ob ct by (auto simp: bulk_found_def vote_key_def)
    have k: "obj_pk obj \<in> fst ` set ?xs"
      using rin key by (force simp: vote_key_def)
    have same: "snd p = r" if "p \<in> set ?xs" "fst p = obj_pk obj" for p
    proof -
      from that obtain v where v: "v \<in> set (bulk_found s objects usr)" "p = (object_id v, v)"
        by auto
      with that(2) ct have "v \<in> set (lookup s (user_pk usr) (get_for_model obj) (obj_pk obj))"
        by (auto simp: bulk_found_def lookup_def same_key_def)
      with l v(2) show ?thesis by simp
    qed
    have "map_of ?xs (obj_pk obj) = Some r"
      by (rule map_of_all_same [OF k]) (use same in blast)
    then show ?thesis
      by (simp add: get_for_user_in_bulk_eq [OF assms] py_dict_def)
  qed
  have d: "get_for_user s obj usr = Inr None" if "\<not> is_authenticated usr"
    using that by (simp add: get_for_user_def)
  show ?thesis
    using a c d get_for_user_in_bulk_eq [OF assms, of s usr] by blast
qed

theorem get_for_user_in_bulk_unauthenticated_witness:
  "[\<lparr>obj_ctype = 1, obj_pk = 20\<rparr>] \<noteq> [] \<and> \<not> is_authenticated anon \<and>
   lookup ex_store (user_pk anon) 1 20 = [vote_row 8 3 20 (- 1)] \<and>
   get_for_user ex_store \<lparr>obj_ctype = 1, obj_pk = 20\<rparr> anon = Inr None \<and>
   get_for_user_in_bulk ex_store [\<lparr>obj_ctype = 1, obj_pk = 20\<rparr>] anon 20 = Some (vote_row 8 3 20 (- 1))"
proof -
  let ?ob = "\<lparr>obj_ctype = 1, obj_pk = 20\<rparr>"
  have l: "lookup ex_store (user_pk anon) (get_for_model ?ob) (obj_pk ?ob) = [vote_row 8 3 20 (- 1)]"
    by code_simp
  have n: "[?ob] \<noteq> []" and u: "\<not> is_authenticated anon"
    and m: "?ob \<in> set [?ob]" and h: "get_for_model ?ob = get_for_model (hd [?ob])"
    by (simp_all add: anon_def)
  have "get_for_user ex_store ?ob anon = Inr None \<and>
        get_for_user_in_bulk ex_store [?ob] anon (obj_pk ?ob) = Some (vote_row 8 3 20 (- 1))"
    using get_for_user_in_bulk_unauthenticated
      [OF n, where s = ex_store and usr = anon and obj = ?ob and r = "vote_row 8 3 20 (- 1)" and b = False]
      l u m h
    by blast
  then show ?thesis
    using l u by (simp add: get_for_model_def)
qed


end
